theory Spec2Isabelle
  imports Main
begin

section \<open>Data model of \<^verbatim>\<open>src/main.ts\<close>\<close>

text \<open>
  \<^verbatim>\<open>EngineConstraint\<close>: the two bounds are optional strings. JavaScript tests them by
  truthiness (\<^verbatim>\<open>if (minVersion)\<close>), so the absent value and the empty string are kept
  apart in the data and merged only where the code tests them.
\<close>

record EngineConstraint =
  engine :: string
  minVersion :: "string option"
  maxVersion :: "string option"

text \<open>
  \<^verbatim>\<open>PackageJson['browserslist']\<close> is \<^verbatim>\<open>string | string[] | Record<string, string | string[]>\<close>
  or absent. The record form is kept as the ordered list of its own properties.
\<close>

datatype query_value = QString string | QArray "string list"

datatype browserslist_field =
    BString string
  | BArray "string list"
  | BRecord "(string \<times> query_value) list"

text \<open>
  \<^verbatim>\<open>engines\<close> is an optional \<^verbatim>\<open>Record<string, string>\<close>: the finite map of the own
  properties of a plain object. It is read only through \<^verbatim>\<open>engines[engine]\<close>, see
  \<open>get_property\<close> below.
\<close>

record PackageJson =
  engines :: "(string \<rightharpoonup> string) option"
  browserslist :: "browserslist_field option"

text \<open>
  Two kinds of exception can leave \<^verbatim>\<open>satisfies\<close>: the \<^verbatim>\<open>Error\<close> that
  \<^verbatim>\<open>parse_browserslist\<close> throws itself, with its message, and whatever a library call
  throws, which no \<^verbatim>\<open>try\<close> in the file catches.
\<close>

datatype error = UnsupportedFormat string | LibraryError string

text \<open>
  What \<^verbatim>\<open>engines[engine]\<close> can evaluate to when it is not \<^verbatim>\<open>undefined\<close>: the string
  of an own property, or the member of \<^verbatim>\<open>Object.prototype\<close> of that name, which is a
  function (for \<^verbatim>\<open>__proto__\<close> the prototype object itself) and never a string.
\<close>

datatype js_value = Str string | Inherited string

subsection \<open>The imported libraries\<close>

text \<open>
  \<^verbatim>\<open>browserslist\<close> and the five functions imported from \<^verbatim>\<open>semver\<close> are not part of
  the repository. They are parameters of the model. \<^verbatim>\<open>browserslist\<close> is called once
  with a list of queries and once with a single query string. The three functions that
  parse a query or a range may throw (\<open>Inl\<close> carries the message); \<^verbatim>\<open>coerce\<close> answers
  \<^verbatim>\<open>null\<close> instead, and the comparisons take two parsed versions. The range handed to
  \<^verbatim>\<open>minVersion\<close> and \<^verbatim>\<open>intersects\<close> is whatever \<^verbatim>\<open>engines[engine]\<close> gave. The type
  \<open>'v\<close> stands for the library's \<^verbatim>\<open>SemVer\<close> objects.
\<close>

datatype query_arg = Query string | Queries "string list"

record 'v libs =
  browserslist_fn :: "query_arg \<Rightarrow> string + string list"
  semverMinVersion :: "js_value \<Rightarrow> string + 'v option"
  semverIntersects :: "js_value \<Rightarrow> string \<Rightarrow> string + bool"
  semverCoerce :: "string \<Rightarrow> 'v option"
  gte :: "'v \<Rightarrow> 'v \<Rightarrow> bool"
  lte :: "'v \<Rightarrow> 'v \<Rightarrow> bool"

section \<open>JavaScript built-ins used by the code\<close>

text \<open>
  \<^verbatim>\<open>obj[name]\<close> on a plain object whose own properties are strings: an own property
  wins; otherwise the lookup goes on to \<^verbatim>\<open>Object.prototype\<close>, which has the twelve
  members listed; otherwise the result is \<^verbatim>\<open>undefined\<close> (\<open>None\<close>).
\<close>

definition object_prototype_names :: "string list" where
  "object_prototype_names =
     [''constructor'', ''__defineGetter__'', ''__defineSetter__'', ''hasOwnProperty'',
      ''__lookupGetter__'', ''__lookupSetter__'', ''isPrototypeOf'',
      ''propertyIsEnumerable'', ''toString'', ''valueOf'', ''__proto__'',
      ''toLocaleString'']"

definition get_property :: "(string \<rightharpoonup> string) \<Rightarrow> string \<Rightarrow> js_value option" where
  "get_property obj name =
     (case obj name of
        Some s \<Rightarrow> Some (Str s)
      | None \<Rightarrow> if name \<in> set object_prototype_names then Some (Inherited name) else None)"

text \<open>\<^verbatim>\<open>s.indexOf(ch)\<close>: the position of the first occurrence, \<open>None\<close> for \<open>-1\<close>.\<close>

fun indexOf :: "string \<Rightarrow> char \<Rightarrow> nat option" where
  "indexOf [] ch = None"
| "indexOf (x # xs) ch = (if x = ch then Some 0 else map_option Suc (indexOf xs ch))"

text \<open>
  \<^verbatim>\<open>s.split(sep)\<close> for a one-character separator: every occurrence cuts, the pieces
  may be empty, and the result is never the empty array (\<^verbatim>\<open>''.split('-')\<close> is
  \<^verbatim>\<open>['']\<close>).
\<close>

fun split :: "string \<Rightarrow> char \<Rightarrow> string list" where
  "split [] sep = [[]]"
| "split (x # xs) sep =
     (if x = sep then [] # split xs sep
      else (case split xs sep of
              [] \<Rightarrow> [[x]]
            | p # ps \<Rightarrow> (x # p) # ps))"

text \<open>
  \<^verbatim>\<open>JSON.stringify\<close> on the record form. Strings are quoted; the quote, the backslash
  and the control characters below U+0020 are escaped, everything else is copied.
\<close>

definition hex_digit :: "nat \<Rightarrow> char" where
  "hex_digit n = (''0123456789abcdef'' ! (n mod 16))"

definition json_char :: "char \<Rightarrow> string" where
  "json_char ch =
     (if ch = CHR 0x22 then [CHR 0x5C, CHR 0x22]
      else if ch = CHR 0x5C then [CHR 0x5C, CHR 0x5C]
      else if ch = CHR 0x08 then [CHR 0x5C, CHR ''b'']
      else if ch = CHR 0x09 then [CHR 0x5C, CHR ''t'']
      else if ch = CHR 0x0A then [CHR 0x5C, CHR ''n'']
      else if ch = CHR 0x0C then [CHR 0x5C, CHR ''f'']
      else if ch = CHR 0x0D then [CHR 0x5C, CHR ''r'']
      else if (of_char ch :: nat) < 32
        then [CHR 0x5C, CHR ''u'', CHR ''0'', CHR ''0'',
              hex_digit (of_char ch div 16), hex_digit (of_char ch)]
      else [ch])"

definition json_string :: "string \<Rightarrow> string" where
  "json_string s = [CHR 0x22] @ concat (map json_char s) @ [CHR 0x22]"

fun json_commas :: "string list \<Rightarrow> string" where
  "json_commas [] = []"
| "json_commas [x] = x"
| "json_commas (x # y # zs) = x @ '','' @ json_commas (y # zs)"

fun json_value :: "query_value \<Rightarrow> string" where
  "json_value (QString s) = json_string s"
| "json_value (QArray xs) = ''['' @ json_commas (map json_string xs) @ '']''"

definition JSON_stringify :: "(string \<times> query_value) list \<Rightarrow> string" where
  "JSON_stringify props =
     ''{'' @ json_commas (map (\<lambda>(k, v). json_string k @ '':'' @ json_value v) props) @ ''}''"

section \<open>\<^verbatim>\<open>parse_browserslist\<close>\<close>

text \<open>
  The loop over the resolver's entries (lines 43 to 54): an entry without a space is
  skipped; otherwise the text before the first space is the family and the rest is
  appended to that family's list.
\<close>

fun group_entries ::
  "string list \<Rightarrow> (string \<rightharpoonup> string list) \<Rightarrow> (string \<rightharpoonup> string list)" where
  "group_entries [] m = m"
| "group_entries (entry # rest) m =
     (case indexOf entry (CHR '' '') of
        None \<Rightarrow> group_entries rest m
      | Some idx \<Rightarrow>
          (let family = take idx entry;
               version = drop (idx + 1) entry
           in group_entries rest
                (case m family of
                   Some existing \<Rightarrow> m(family \<mapsto> existing @ [version])
                 | None \<Rightarrow> m(family \<mapsto> [version]))))"

definition resolve_query_list ::
  "'v libs \<Rightarrow> string list \<Rightarrow> error + (string \<rightharpoonup> string list)" where
  "resolve_query_list c query_list =
     (if query_list = [] then Inr Map.empty
      else (case browserslist_fn c (Queries query_list) of
              Inl msg \<Rightarrow> Inl (LibraryError msg)
            | Inr resolved \<Rightarrow> Inr (group_entries resolved Map.empty)))"

definition parse_browserslist ::
  "'v libs \<Rightarrow> browserslist_field option \<Rightarrow> error + (string \<rightharpoonup> string list)" where
  "parse_browserslist c queries =
     (case queries of
        None \<Rightarrow> Inr Map.empty
      | Some (BString q) \<Rightarrow> resolve_query_list c [q]
      | Some (BArray qs) \<Rightarrow> resolve_query_list c qs
      | Some (BRecord props) \<Rightarrow>
          Inl (UnsupportedFormat (''Unsupported browserslist format: '' @ JSON_stringify props)))"

section \<open>\<^verbatim>\<open>satisfies\<close>\<close>

text \<open>
  \<^verbatim>\<open>if (s)\<close> on an optional string: \<^verbatim>\<open>undefined\<close> and \<^verbatim>\<open>''\<close> are falsy. The result
  is the string when the test succeeds.
\<close>

definition truthy :: "string option \<Rightarrow> string option" where
  "truthy s = (case s of None \<Rightarrow> None | Some x \<Rightarrow> if x = [] then None else Some x)"

text \<open>
  The same test on the result of \<^verbatim>\<open>engines[engine]\<close>: a function or an object is
  truthy.
\<close>

definition truthy_value :: "js_value option \<Rightarrow> js_value option" where
  "truthy_value v =
     (case v of
        None \<Rightarrow> None
      | Some (Str x) \<Rightarrow> if x = [] then None else Some (Str x)
      | Some (Inherited n) \<Rightarrow> Some (Inherited n))"

text \<open>
  Sequencing inside the loop body and of the loop itself: an exception propagates,
  \<open>Inr False\<close> is \<^verbatim>\<open>return false\<close> and ends the run, \<open>Inr True\<close> falls through to what
  follows. The same function is JavaScript's \<^verbatim>\<open>a && b\<close> on two calls that may throw.
\<close>

definition and_then :: "error + bool \<Rightarrow> error + bool \<Rightarrow> error + bool" where
  "and_then a b = (case a of Inl e \<Rightarrow> Inl e | Inr ok \<Rightarrow> if ok then b else Inr False)"

text \<open>Lines 81 to 87: the lower bound against the declared range.\<close>

definition engine_min_check :: "'v libs \<Rightarrow> js_value \<Rightarrow> string option \<Rightarrow> error + bool" where
  "engine_min_check c engine_range minV =
     (case truthy minV of
        None \<Rightarrow> Inr True
      | Some mv \<Rightarrow>
          (case semverMinVersion c engine_range of
             Inl msg \<Rightarrow> Inl (LibraryError msg)
           | Inr lowest \<Rightarrow>
               (let coerced_min = semverCoerce c mv
                in case lowest of
                     None \<Rightarrow> Inr False
                   | Some l \<Rightarrow>
                       (case coerced_min of
                          None \<Rightarrow> Inr False
                        | Some m \<Rightarrow> if \<not> gte c l m then Inr False else Inr True))))"

text \<open>Lines 88 to 92: the upper bound, by intersecting with \<^verbatim>\<open>'>' + maxVersion\<close>.\<close>

definition engine_max_check :: "'v libs \<Rightarrow> js_value \<Rightarrow> string option \<Rightarrow> error + bool" where
  "engine_max_check c engine_range maxV =
     (case truthy maxV of
        None \<Rightarrow> Inr True
      | Some mv \<Rightarrow>
          (case semverIntersects c engine_range (''>'' @ mv) of
             Inl msg \<Rightarrow> Inl (LibraryError msg)
           | Inr hit \<Rightarrow> if hit then Inr False else Inr True))"

definition check_engine_range ::
  "'v libs \<Rightarrow> js_value \<Rightarrow> string option \<Rightarrow> string option \<Rightarrow> error + bool" where
  "check_engine_range c engine_range minV maxV =
     and_then (engine_min_check c engine_range minV) (engine_max_check c engine_range maxV)"

text \<open>
  Lines 105 to 124, for one effective version token: \<open>False\<close> is \<^verbatim>\<open>return false\<close>.
\<close>

definition check_version :: "'v libs \<Rightarrow> string option \<Rightarrow> string option \<Rightarrow> string \<Rightarrow> bool" where
  "check_version c minV maxV version =
     (let parts = split version (CHR ''-'');
          low = hd parts;
          high = last parts
      in (case truthy minV of
            None \<Rightarrow> True
          | Some mn \<Rightarrow>
              (case semverCoerce c low of
                 None \<Rightarrow> False
               | Some coerced \<Rightarrow>
                   (case semverCoerce c mn of
                      None \<Rightarrow> False
                    | Some coerced_min \<Rightarrow> gte c coerced coerced_min)))
         \<and>
         (case truthy maxV of
            None \<Rightarrow> True
          | Some mx \<Rightarrow>
              (case semverCoerce c high of
                 None \<Rightarrow> False
               | Some coerced \<Rightarrow>
                   (case semverCoerce c mx of
                      None \<Rightarrow> False
                    | Some coerced_max \<Rightarrow> lte c coerced coerced_max))))"

text \<open>
  \<^verbatim>\<open>latest.slice(latest.indexOf(' ') + 1)\<close>: the text after the first space, the whole
  string when there is none (\<open>-1 + 1 = 0\<close>).
\<close>

definition version_portion :: "string \<Rightarrow> string" where
  "version_portion latest =
     (case indexOf latest (CHR '' '') of None \<Rightarrow> latest | Some idx \<Rightarrow> drop (idx + 1) latest)"

text \<open>
  Lines 97 to 125, the loop over the tokens of one family. \<^verbatim>\<open>!latest\<close> holds for an
  empty result and for an empty first entry.
\<close>

fun check_browser_versions ::
  "'v libs \<Rightarrow> string option \<Rightarrow> string option \<Rightarrow> string list \<Rightarrow> error + bool" where
  "check_browser_versions c minV maxV [] = Inr True"
| "check_browser_versions c minV maxV (version # rest) =
     (if version = ''TP'' then
        (case browserslist_fn c (Query ''last 1 safari version'') of
           Inl msg \<Rightarrow> Inl (LibraryError msg)
         | Inr resolved \<Rightarrow>
             (case resolved of
                [] \<Rightarrow> check_browser_versions c minV maxV rest
              | latest # _ \<Rightarrow>
                  if latest = [] then check_browser_versions c minV maxV rest
                  else if check_version c minV maxV (version_portion latest)
                    then check_browser_versions c minV maxV rest
                    else Inr False))
      else if check_version c minV maxV version
        then check_browser_versions c minV maxV rest
        else Inr False)"

text \<open>The body of the loop over the requirements (lines 68 to 126).\<close>

definition check_constraint ::
  "'v libs \<Rightarrow> (string \<rightharpoonup> string) \<Rightarrow> (string \<rightharpoonup> string list) \<Rightarrow> EngineConstraint
     \<Rightarrow> error + bool" where
  "check_constraint c engs browser_map constraint =
     (if truthy (minVersion constraint) = None \<and> truthy (maxVersion constraint) = None
      then Inr True
      else
        (let engine_range = get_property engs (engine constraint);
             browser_versions = browser_map (engine constraint)
         in if truthy_value engine_range = None \<and> browser_versions = None then Inr True
            else
              and_then
                (case truthy_value engine_range of
                   None \<Rightarrow> Inr True
                 | Some r \<Rightarrow>
                     check_engine_range c r (minVersion constraint) (maxVersion constraint))
                (case browser_versions of
                   None \<Rightarrow> Inr True
                 | Some vs \<Rightarrow>
                     check_browser_versions c (minVersion constraint)
                       (maxVersion constraint) vs)))"

fun satisfies_loop ::
  "'v libs \<Rightarrow> (string \<rightharpoonup> string) \<Rightarrow> (string \<rightharpoonup> string list) \<Rightarrow> EngineConstraint list
     \<Rightarrow> error + bool" where
  "satisfies_loop c engs browser_map [] = Inr True"
| "satisfies_loop c engs browser_map (constraint # rest) =
     and_then (check_constraint c engs browser_map constraint)
       (satisfies_loop c engs browser_map rest)"

text \<open>\<^verbatim>\<open>pkg.engines ?? {}\<close>\<close>

definition engines_of :: "PackageJson \<Rightarrow> (string \<rightharpoonup> string)" where
  "engines_of pkg = (case engines pkg of None \<Rightarrow> Map.empty | Some e \<Rightarrow> e)"

definition satisfies :: "'v libs \<Rightarrow> PackageJson \<Rightarrow> EngineConstraint list \<Rightarrow> error + bool" where
  "satisfies c pkg requirements =
     (case parse_browserslist c (browserslist pkg) of
        Inl e \<Rightarrow> Inl e
      | Inr browser_map \<Rightarrow> satisfies_loop c (engines_of pkg) browser_map requirements)"

section \<open>Notions used to state the results\<close>

text \<open>A library that never throws.\<close>

definition no_throw :: "'v libs \<Rightarrow> bool" where
  "no_throw c \<longleftrightarrow>
     (\<forall>q. \<not> isl (browserslist_fn c q)) \<and>
     (\<forall>r. \<not> isl (semverMinVersion c r)) \<and>
     (\<forall>r s. \<not> isl (semverIntersects c r s))"

text \<open>
  The comparisons of the library form an order: \<^verbatim>\<open>gte\<close> is transitive and
  \<^verbatim>\<open>lte(a, b)\<close> is \<^verbatim>\<open>gte(b, a)\<close>.
\<close>

definition semver_order :: "'v libs \<Rightarrow> bool" where
  "semver_order c \<longleftrightarrow>
     (\<forall>a b. lte c a b = gte c b a) \<and>
     (\<forall>a b d. gte c a b \<longrightarrow> gte c b d \<longrightarrow> gte c a d)"

text \<open>
  The wording of the specification for a failed lower bound: one of the two versions
  did not resolve, or the first is strictly below the second (not at least it).
\<close>

definition unresolved_or_below :: "'v libs \<Rightarrow> 'v option \<Rightarrow> 'v option \<Rightarrow> bool" where
  "unresolved_or_below c lowest coerced_min =
     (case lowest of
        None \<Rightarrow> True
      | Some l \<Rightarrow> (case coerced_min of None \<Rightarrow> True | Some m \<Rightarrow> \<not> gte c l m))"

text \<open>
  The wording of the specification for a range token: the segment before the first
  hyphen and the segment after the last one.
\<close>

definition first_segment :: "string \<Rightarrow> string" where
  "first_segment v = takeWhile (\<lambda>x. x \<noteq> CHR ''-'') v"

definition last_segment :: "string \<Rightarrow> string" where
  "last_segment v = rev (takeWhile (\<lambda>x. x \<noteq> CHR ''-'') (rev v))"

text \<open>
  The wording of the specification for the two bound checks on a browser version: both
  sides are coerced, a side that does not coerce fails the check, an absent (or empty)
  bound asks for nothing.
\<close>

definition min_bound_ok :: "'v libs \<Rightarrow> string option \<Rightarrow> string \<Rightarrow> bool" where
  "min_bound_ok c minV low =
     (case truthy minV of
        None \<Rightarrow> True
      | Some mn \<Rightarrow>
          (case semverCoerce c low of
             None \<Rightarrow> False
           | Some a \<Rightarrow> (case semverCoerce c mn of None \<Rightarrow> False | Some b \<Rightarrow> gte c a b)))"

definition max_bound_ok :: "'v libs \<Rightarrow> string option \<Rightarrow> string \<Rightarrow> bool" where
  "max_bound_ok c maxV high =
     (case truthy maxV of
        None \<Rightarrow> True
      | Some mx \<Rightarrow>
          (case semverCoerce c high of
             None \<Rightarrow> False
           | Some a \<Rightarrow> (case semverCoerce c mx of None \<Rightarrow> False | Some b \<Rightarrow> lte c a b)))"

text \<open>
  The token the bound checks see in place of a resolved token: the token itself, or for
  \<^verbatim>\<open>TP\<close> the version portion of the first entry the resolver gives for
  \<^verbatim>\<open>last 1 safari version\<close>; \<open>None\<close> when the token is passed over.
\<close>

definition effective_token :: "'v libs \<Rightarrow> string \<Rightarrow> string option" where
  "effective_token c version =
     (if version = ''TP'' then
        (case browserslist_fn c (Query ''last 1 safari version'') of
           Inl msg \<Rightarrow> None
         | Inr resolved \<Rightarrow>
             (case resolved of
                [] \<Rightarrow> None
              | latest # _ \<Rightarrow> if latest = [] then None else Some (version_portion latest)))
      else Some version)"

text \<open>
  A bound check that the code evaluates for a constraint meets a value that does not
  coerce: a browser token's first segment or the lower bound, a browser token's last
  segment or the upper bound, or the lower bound against a declared engine range.
\<close>

definition uncoercible_check ::
  "'v libs \<Rightarrow> (string \<rightharpoonup> string) \<Rightarrow> (string \<rightharpoonup> string list) \<Rightarrow> EngineConstraint \<Rightarrow> bool" where
  "uncoercible_check c engs bm k \<longleftrightarrow>
     (\<exists>vs v t mn. bm (engine k) = Some vs \<and> v \<in> set vs \<and> effective_token c v = Some t
        \<and> minVersion k = Some mn \<and> mn \<noteq> []
        \<and> (semverCoerce c (first_segment t) = None \<or> semverCoerce c mn = None))
   \<or> (\<exists>vs v t mx. bm (engine k) = Some vs \<and> v \<in> set vs \<and> effective_token c v = Some t
        \<and> maxVersion k = Some mx \<and> mx \<noteq> []
        \<and> (semverCoerce c (last_segment t) = None \<or> semverCoerce c mx = None))
   \<or> (\<exists>r mn. engs (engine k) = Some r \<and> r \<noteq> []
        \<and> minVersion k = Some mn \<and> mn \<noteq> [] \<and> semverCoerce c mn = None)"

text \<open>
  The query list that \<^verbatim>\<open>parse_browserslist\<close> hands to the resolver; the resolver is not
  called on the empty list.
\<close>

definition query_list_of :: "browserslist_field option \<Rightarrow> string list" where
  "query_list_of field =
     (case field of
        None \<Rightarrow> []
      | Some (BString q) \<Rightarrow> [q]
      | Some (BArray qs) \<Rightarrow> qs
      | Some (BRecord props) \<Rightarrow> [])"

text \<open>The resolved browser map of a manifest, empty when parsing raised.\<close>

definition resolved_map :: "'v libs \<Rightarrow> PackageJson \<Rightarrow> (string \<rightharpoonup> string list)" where
  "resolved_map c pkg =
     (case parse_browserslist c (browserslist pkg) of Inl e \<Rightarrow> Map.empty | Inr bm \<Rightarrow> bm)"

text \<open>
  The library calls that a run on these inputs can reach all return: the resolver on the
  manifest's queries; the resolver on \<^verbatim>\<open>last 1 safari version\<close> when a requirement's
  family has a token \<^verbatim>\<open>TP\<close>; \<^verbatim>\<open>minVersion\<close> on the truthy value read for a requirement
  with a lower bound; \<^verbatim>\<open>intersects\<close> on that value and the cap of a requirement with an
  upper bound.
\<close>

definition calls_return :: "'v libs \<Rightarrow> PackageJson \<Rightarrow> EngineConstraint list \<Rightarrow> bool" where
  "calls_return c pkg reqs \<longleftrightarrow>
     (query_list_of (browserslist pkg) = []
        \<or> \<not> isl (browserslist_fn c (Queries (query_list_of (browserslist pkg)))))
   \<and> (list_ex (\<lambda>k. case resolved_map c pkg (engine k) of
                       None \<Rightarrow> False
                     | Some vs \<Rightarrow> ''TP'' \<in> set vs) reqs
        \<longrightarrow> \<not> isl (browserslist_fn c (Query ''last 1 safari version'')))
   \<and> list_all
        (\<lambda>k. case truthy_value (get_property (engines_of pkg) (engine k)) of
               None \<Rightarrow> True
             | Some v \<Rightarrow>
                 (case truthy (minVersion k) of
                    None \<Rightarrow> True
                  | Some mn \<Rightarrow> \<not> isl (semverMinVersion c v))
                 \<and> (case truthy (maxVersion k) of
                      None \<Rightarrow> True
                    | Some mx \<Rightarrow> \<not> isl (semverIntersects c v (''>'' @ mx))))
        reqs"

text \<open>
  The library's intersection test is monotone in the cap for the pair \<open>W\<close>, \<open>W'\<close>: every
  range that does not reach above \<open>W\<close> does not reach above \<open>W'\<close>.
\<close>

definition cap_monotone :: "'v libs \<Rightarrow> string \<Rightarrow> string \<Rightarrow> bool" where
  "cap_monotone c W W' \<longleftrightarrow>
     (\<forall>r. semverIntersects c r (''>'' @ W) = Inr False
        \<longrightarrow> semverIntersects c r (''>'' @ W') = Inr False)"



subsection \<open>A stand-in for the libraries over a finite vocabulary\<close>

text \<open>
  Concrete runs need concrete libraries. \<open>table_libs\<close> knows the few version strings,
  ranges, caps and queries listed below and answers them the way \<^verbatim>\<open>semver\<close> 7 and
  \<^verbatim>\<open>browserslist\<close> do: versions are triples compared lexicographically; \<^verbatim>\<open>coerce\<close> pads
  a partial version with zeros and gives \<^verbatim>\<open>null\<close> on text without a digit (\<^verbatim>\<open>all\<close>,
  \<^verbatim>\<open>*\<close>, the empty string); a range is its lowest version and, when bounded, its
  highest; the cap \<^verbatim>\<open>>14\<close> is the range from \<^verbatim>\<open>15.0.0\<close>, \<^verbatim>\<open>>14.1\<close> the range from
  \<^verbatim>\<open>14.2.0\<close>, and \<^verbatim>\<open>>*\<close> matches no version; a query naming one version resolves to
  that entry. A range or cap outside the vocabulary is refused with the \<^verbatim>\<open>TypeError\<close>
  that \<^verbatim>\<open>new Range\<close> raises on text it cannot parse, a value that is not a string with
  the \<^verbatim>\<open>TypeError\<close> of calling \<^verbatim>\<open>trim\<close> on it, and a query outside the vocabulary with
  the resolver's error for an unknown query. The release taken for the latest Safari is an arbitrary choice.
\<close>

definition ver_gte :: "nat \<times> nat \<times> nat \<Rightarrow> nat \<times> nat \<times> nat \<Rightarrow> bool" where
  "ver_gte a b =
     (case a of (a1, a2, a3) \<Rightarrow>
        (case b of (b1, b2, b3) \<Rightarrow>
           a1 > b1 \<or> (a1 = b1 \<and> (a2 > b2 \<or> (a2 = b2 \<and> a3 \<ge> b3)))))"

definition table_coerce :: "string \<Rightarrow> (nat \<times> nat \<times> nat) option" where
  "table_coerce s =
     (if s = ''1'' then Some (1, 0, 0)
      else if s = ''14'' then Some (14, 0, 0)
      else if s = ''14.0.0'' then Some (14, 0, 0)
      else if s = ''14.1'' then Some (14, 1, 0)
      else if s = ''15'' then Some (15, 0, 0)
      else if s = ''17'' then Some (17, 0, 0)
      else if s = ''17.5'' then Some (17, 5, 0)
      else if s = ''17.6'' then Some (17, 6, 0)
      else if s = ''18'' then Some (18, 0, 0)
      else if s = ''18.2'' then Some (18, 2, 0)
      else if s = ''100'' then Some (100, 0, 0)
      else if s = ''120'' then Some (120, 0, 0)
      else None)"

text \<open>A range: its lowest version and its highest one, if it has one.\<close>

definition table_range ::
  "string \<Rightarrow> ((nat \<times> nat \<times> nat) \<times> (nat \<times> nat \<times> nat) option) option" where
  "table_range r =
     (if r = ''>=12'' then Some ((12, 0, 0), None)
      else if r = ''>=18'' then Some ((18, 0, 0), None)
      else if r = ''14.2.0'' then Some ((14, 2, 0), Some (14, 2, 0))
      else None)"

text \<open>A cap \<^verbatim>\<open>'>' + maxVersion\<close>: the lowest version it admits, if it admits any.\<close>

definition table_cap :: "string \<Rightarrow> (nat \<times> nat \<times> nat) option option" where
  "table_cap s =
     (if s = ''>14'' then Some (Some (15, 0, 0))
      else if s = ''>14.1'' then Some (Some (14, 2, 0))
      else if s = ''>15'' then Some (Some (16, 0, 0))
      else if s = ''>18'' then Some (Some (19, 0, 0))
      else if s = ''>*'' then Some None
      else None)"

definition invalid_comparator :: "string \<Rightarrow> string" where
  "invalid_comparator s = ''Invalid comparator: '' @ takeWhile (\<lambda>x. x \<noteq> CHR '' '') s"

definition table_minVersion :: "js_value \<Rightarrow> string + (nat \<times> nat \<times> nat) option" where
  "table_minVersion v =
     (case v of
        Inherited n \<Rightarrow> Inl ''range.trim is not a function''
      | Str r \<Rightarrow>
          (case table_range r of
             None \<Rightarrow> Inl (invalid_comparator r)
           | Some (lo, hi) \<Rightarrow> Inr (Some lo)))"

definition table_intersects :: "js_value \<Rightarrow> string \<Rightarrow> string + bool" where
  "table_intersects v s =
     (case v of
        Inherited n \<Rightarrow> Inl ''range.trim is not a function''
      | Str r \<Rightarrow>
          (case table_range r of
             None \<Rightarrow> Inl (invalid_comparator r)
           | Some (lo, hi) \<Rightarrow>
               (case table_cap s of
                  None \<Rightarrow> Inl (invalid_comparator s)
                | Some None \<Rightarrow> Inr False
                | Some (Some b) \<Rightarrow>
                    Inr (case hi of None \<Rightarrow> True | Some h \<Rightarrow> ver_gte h b))))"

definition unknown_query :: "query_arg \<Rightarrow> string" where
  "unknown_query q =
     ''Unknown browser query `''
       @ (case q of Query x \<Rightarrow> x | Queries xs \<Rightarrow> (case xs of [] \<Rightarrow> [] | x # _ \<Rightarrow> x))
       @ ''`. Maybe you are using old Browserslist or made typo in query.''"

definition table_browserslist :: "query_arg \<Rightarrow> string + string list" where
  "table_browserslist q =
     (if q = Queries [''chrome 100''] then Inr [''chrome 100'']
      else if q = Queries [''op_mini all''] then Inr [''op_mini all'']
      else if q = Queries [''safari TP''] then Inr [''safari TP'']
      else if q = Query ''last 1 safari version'' then Inr [''safari 18.2'']
      else Inl (unknown_query q))"

definition table_libs :: "(nat \<times> nat \<times> nat) libs" where
  "table_libs =
     \<lparr>browserslist_fn = table_browserslist,
      semverMinVersion = table_minVersion,
      semverIntersects = table_intersects,
      semverCoerce = table_coerce,
      gte = ver_gte,
      lte = (\<lambda>a b. ver_gte b a)\<rparr>"


section \<open>Basic facts\<close>

lemma and_then_simps:
  "and_then (Inl e) b = Inl e"
  "and_then (Inr True) b = b"
  "and_then (Inr False) b = Inr False"
  by (simp_all add: and_then_def)

lemma and_then_assoc: "and_then (and_then a b) d = and_then a (and_then b d)"
  by (cases a) (auto simp: and_then_def)

lemma and_then_True_iff: "and_then a b = Inr True \<longleftrightarrow> a = Inr True \<and> b = Inr True"
  by (cases a) (auto simp: and_then_def)

lemma satisfies_loop_append:
  "satisfies_loop c engs bm (xs @ ys) =
     and_then (satisfies_loop c engs bm xs) (satisfies_loop c engs bm ys)"
  by (induction xs) (simp_all add: and_then_simps and_then_assoc)

lemma satisfies_loop_skip:
  assumes "check_constraint c engs bm k = Inr True"
  shows "satisfies_loop c engs bm (xs @ k # ys) = satisfies_loop c engs bm (xs @ ys)"
  using assms by (simp add: satisfies_loop_append and_then_simps)

lemma satisfies_loop_True_iff:
  "satisfies_loop c engs bm ks = Inr True \<longleftrightarrow>
     (\<forall>k \<in> set ks. check_constraint c engs bm k = Inr True)"
  by (induction ks) (auto simp: and_then_True_iff)

lemma satisfies_skip:
  assumes "\<And>bm. parse_browserslist c (browserslist pkg) = Inr bm \<Longrightarrow>
             check_constraint c (engines_of pkg) bm k = Inr True"
  shows "satisfies c pkg (xs @ k # ys) = satisfies c pkg (xs @ ys)"
  using assms by (auto simp: satisfies_def satisfies_loop_skip split: sum.splits)

lemma truthy_simps:
  "truthy None = None"
  "truthy (Some []) = None"
  "truthy (Some (x # xs)) = Some (x # xs)"
  by (simp_all add: truthy_def)

lemma truthy_Some_iff: "truthy s = Some x \<longleftrightarrow> s = Some x \<and> x \<noteq> []"
  by (auto simp: truthy_def split: option.splits)

lemmas table_defs =
  table_libs_def table_browserslist_def table_minVersion_def table_intersects_def
  table_range_def table_cap_def invalid_comparator_def unknown_query_def table_coerce_def
  ver_gte_def

lemmas run_defs =
  satisfies_def parse_browserslist_def resolve_query_list_def engines_of_def
  check_constraint_def check_engine_range_def engine_min_check_def engine_max_check_def
  check_version_def version_portion_def and_then_def truthy_def truthy_value_def
  get_property_def object_prototype_names_def Let_def

lemma get_property_own: "obj name = Some s \<Longrightarrow> get_property obj name = Some (Str s)"
  by (simp add: get_property_def)

lemma truthy_value_own:
  "obj name = Some s \<Longrightarrow> s \<noteq> [] \<Longrightarrow> truthy_value (get_property obj name) = Some (Str s)"
  by (simp add: get_property_def truthy_value_def)

lemma truthy_value_Some: "truthy_value v = Some x \<Longrightarrow> v = Some x"
  by (auto simp: truthy_value_def split: option.splits js_value.splits if_splits)

lemma satisfies_append:
  "satisfies c pkg (xs @ ys) = and_then (satisfies c pkg xs) (satisfies c pkg ys)"
  by (cases "parse_browserslist c (browserslist pkg)")
     (simp_all add: satisfies_def satisfies_loop_append and_then_simps)

subsection \<open>Which exceptions can leave the loop\<close>





lemma isl_and_then: "isl (and_then a b) \<longleftrightarrow> isl a \<or> (a = Inr True \<and> isl b)"
  by (cases a) (auto simp: and_then_def)

lemma not_isl_Inr: "\<not> isl x \<Longrightarrow> \<exists>y. x = Inr y"
  by (cases x) auto

lemma check_browser_versions_no_throw:
  "no_throw c \<Longrightarrow> \<not> isl (check_browser_versions c mn mx vs)"
proof (induction vs)
  case Nil
  then show ?case by simp
next
  case (Cons v vs)
  from Cons.prems have "\<not> isl (browserslist_fn c (Query ''last 1 safari version''))"
    by (simp add: no_throw_def)
  then obtain rs where "browserslist_fn c (Query ''last 1 safari version'') = Inr rs"
    by (auto dest: not_isl_Inr)
  with Cons show ?case
    by (auto split: list.splits)
qed

lemma check_engine_range_no_throw:
  assumes "no_throw c"
  shows "\<not> isl (check_engine_range c r mn mx)"
proof -
  from assms have "\<not> isl (semverMinVersion c r)"
    by (simp add: no_throw_def)
  then obtain lo where lo: "semverMinVersion c r = Inr lo"
    by (auto dest: not_isl_Inr)
  have hit: "\<exists>h. semverIntersects c r s = Inr h" for s
  proof -
    from assms have "\<not> isl (semverIntersects c r s)"
      by (simp add: no_throw_def)
    then show ?thesis by (rule not_isl_Inr)
  qed
  have "\<not> isl (engine_min_check c r mn)"
    using lo by (auto simp: engine_min_check_def Let_def split: option.splits)
  moreover have "\<not> isl (engine_max_check c r mx)"
  proof (cases "truthy mx")
    case None
    then show ?thesis by (simp add: engine_max_check_def)
  next
    case (Some mv)
    from hit [of "''>'' @ mv"] obtain h where "semverIntersects c r (''>'' @ mv) = Inr h" ..
    with Some show ?thesis by (simp add: engine_max_check_def)
  qed
  ultimately show ?thesis
    by (simp add: check_engine_range_def isl_and_then)
qed

lemma check_constraint_no_throw:
  assumes "no_throw c"
  shows "\<not> isl (check_constraint c engs bm k)"
  by (simp add: check_constraint_def Let_def isl_and_then
        check_engine_range_no_throw [OF assms] check_browser_versions_no_throw [OF assms]
        split: option.splits)

lemma satisfies_loop_no_throw:
  assumes "no_throw c"
  shows "\<not> isl (satisfies_loop c engs bm ks)"
  by (induction ks) (simp_all add: isl_and_then check_constraint_no_throw [OF assms])

lemma parse_browserslist_no_throw:
  assumes "no_throw c" and "\<forall>props. field \<noteq> Some (BRecord props)"
  shows "\<exists>bm. parse_browserslist c field = Inr bm"
proof -
  have "\<exists>bm. resolve_query_list c qs = Inr bm" for qs
  proof -
    from assms(1) have "\<not> isl (browserslist_fn c (Queries qs))"
      by (simp add: no_throw_def)
    then obtain rs where "browserslist_fn c (Queries qs) = Inr rs"
      by (auto dest: not_isl_Inr)
    then show ?thesis by (simp add: resolve_query_list_def)
  qed
  with assms(2) show ?thesis
    by (auto simp: parse_browserslist_def split: option.splits browserslist_field.splits)
qed

lemma satisfies_no_throw:
  assumes "no_throw c" and "\<forall>props. browserslist pkg \<noteq> Some (BRecord props)"
  shows "\<exists>b. satisfies c pkg reqs = Inr b"
proof -
  from parse_browserslist_no_throw [OF assms]
  obtain bm where "parse_browserslist c (browserslist pkg) = Inr bm" ..
  with satisfies_loop_no_throw [OF assms(1), of "engines_of pkg" bm reqs]
  show ?thesis by (auto simp: satisfies_def dest: not_isl_Inr)
qed

subsection \<open>Splitting and the token loop\<close>

lemma split_nonempty: "split v sep \<noteq> []"
  by (induction v) (auto split: list.splits)

lemma hd_split: "hd (split v sep) = takeWhile (\<lambda>x. x \<noteq> sep) v"
  by (induction v) (auto simp: split_nonempty split: list.splits)

lemma split_single: "split v sep = [p] \<Longrightarrow> sep \<notin> set v"
  by (induction v arbitrary: p) (auto simp: split_nonempty split: list.splits if_splits)

lemma last_split_no_sep: "sep \<notin> set v \<Longrightarrow> split v sep = [v]"
  by (induction v) (auto split: list.splits)

lemma last_split: "last (split v sep) = rev (takeWhile (\<lambda>x. x \<noteq> sep) (rev v))"
proof (induction v)
  case Nil
  then show ?case by simp
next
  case (Cons x xs)
  show ?case
  proof (cases "sep \<in> set xs")
    case True
    then have "takeWhile (\<lambda>x. x \<noteq> sep) (rev xs @ [x]) = takeWhile (\<lambda>x. x \<noteq> sep) (rev xs)"
      by (intro takeWhile_append1[where x = sep]) auto
    with Cons True split_nonempty [of xs sep] show ?thesis
      by (auto split: list.splits dest: split_single)
  next
    case False
    then have "takeWhile (\<lambda>x. x \<noteq> sep) (rev xs @ [x])
        = rev xs @ takeWhile (\<lambda>x. x \<noteq> sep) [x]"
      by (intro takeWhile_append2) auto
    with False show ?thesis
      by (auto simp: last_split_no_sep)
  qed
qed

lemma check_version_spec:
  "check_version c minV maxV v =
     (min_bound_ok c minV (first_segment v) \<and> max_bound_ok c maxV (last_segment v))"
  by (simp add: check_version_def Let_def hd_split last_split first_segment_def
        last_segment_def min_bound_ok_def max_bound_ok_def split: option.splits)




subsection \<open>The engine range checks\<close>

lemma satisfies_single:
  "parse_browserslist c (browserslist pkg) = Inr bm \<Longrightarrow>
   satisfies c pkg (k # rest) =
     and_then (check_constraint c (engines_of pkg) bm k)
       (satisfies_loop c (engines_of pkg) bm rest)"
  by (simp add: satisfies_def)

lemma engine_min_check_spec:
  "semverMinVersion c r = Inr lowest \<Longrightarrow> mn \<noteq> [] \<Longrightarrow>
   engine_min_check c r (Some mn) = Inr (\<not> unresolved_or_below c lowest (semverCoerce c mn))"
  by (auto simp: engine_min_check_def unresolved_or_below_def truthy_def Let_def
        split: option.splits)

lemma engine_max_check_spec:
  "semverIntersects c r (''>'' @ mx) = Inr hit \<Longrightarrow> mx \<noteq> [] \<Longrightarrow>
   engine_max_check c r (Some mx) = Inr (\<not> hit)"
  by (auto simp: engine_max_check_def truthy_def)

lemma engine_check_absent [simp]:
  "engine_min_check c r None = Inr True" "engine_max_check c r None = Inr True"
  by (simp_all add: engine_min_check_def engine_max_check_def truthy_def)

lemma check_constraint_engine_only:
  assumes "engs e = Some r" "r \<noteq> []" "bm e = None"
    and "truthy mn \<noteq> None \<or> truthy mx \<noteq> None"
  shows "check_constraint c engs bm \<lparr>engine = e, minVersion = mn, maxVersion = mx\<rparr>
       = check_engine_range c (Str r) mn mx"
  using assms truthy_value_own [of engs e r]
  by (cases "check_engine_range c (Str r) mn mx")
     (auto simp: check_constraint_def Let_def and_then_def)

lemma check_constraint_engine_fails:
  assumes "engs e = Some r" "r \<noteq> []"
    and "check_engine_range c (Str r) mn mx = Inr False"
  shows "check_constraint c engs bm \<lparr>engine = e, minVersion = mn, maxVersion = mx\<rparr> = Inr False"
proof -
  have "truthy mn \<noteq> None \<or> truthy mx \<noteq> None"
    using assms(3)
    by (auto simp: check_engine_range_def engine_min_check_def engine_max_check_def
          and_then_def split: option.splits)
  with assms truthy_value_own [of engs e r] show ?thesis
    by (auto simp: check_constraint_def Let_def and_then_def)
qed

subsection \<open>When a constraint passes\<close>

lemma check_browser_versions_True:
  "check_browser_versions c mn mx vs = Inr True \<Longrightarrow> v \<in> set vs \<Longrightarrow>
   effective_token c v = Some t \<Longrightarrow> check_version c mn mx t"
  by (induction vs)
     (auto simp: effective_token_def split: if_splits sum.splits list.splits)

lemma check_constraint_True_iff:
  "check_constraint c engs bm k = Inr True \<longleftrightarrow>
     (truthy (minVersion k) = None \<and> truthy (maxVersion k) = None)
   \<or> (truthy_value (get_property engs (engine k)) = None \<and> bm (engine k) = None)
   \<or> ((\<forall>r. truthy_value (get_property engs (engine k)) = Some r \<longrightarrow>
           check_engine_range c r (minVersion k) (maxVersion k) = Inr True)
       \<and> (\<forall>vs. bm (engine k) = Some vs \<longrightarrow>
           check_browser_versions c (minVersion k) (maxVersion k) vs = Inr True))"
  by (auto simp: check_constraint_def Let_def and_then_True_iff split: option.splits)

lemma uncoercible_check_not_True:
  assumes "uncoercible_check c engs bm k"
  shows "check_constraint c engs bm k \<noteq> Inr True"
proof
  assume ok: "check_constraint c engs bm k = Inr True"
  from assms consider
    (lo) vs v t mn where "bm (engine k) = Some vs" "v \<in> set vs" "effective_token c v = Some t"
      "minVersion k = Some mn" "mn \<noteq> []"
      "semverCoerce c (first_segment t) = None \<or> semverCoerce c mn = None"
  | (hi) vs v t mx where "bm (engine k) = Some vs" "v \<in> set vs" "effective_token c v = Some t"
      "maxVersion k = Some mx" "mx \<noteq> []"
      "semverCoerce c (last_segment t) = None \<or> semverCoerce c mx = None"
  | (eng) r mn where "engs (engine k) = Some r" "r \<noteq> []"
      "minVersion k = Some mn" "mn \<noteq> []" "semverCoerce c mn = None"
    unfolding uncoercible_check_def by blast
  then show False
  proof cases
    case lo
    with ok have "check_browser_versions c (minVersion k) (maxVersion k) vs = Inr True"
      by (auto simp: check_constraint_True_iff truthy_def)
    from check_browser_versions_True [OF this lo(2,3)]
    have "min_bound_ok c (Some mn) (first_segment t)"
      by (simp add: check_version_spec lo(4))
    with lo(5,6) show False
      by (auto simp: min_bound_ok_def truthy_def split: option.splits)
  next
    case hi
    with ok have "check_browser_versions c (minVersion k) (maxVersion k) vs = Inr True"
      by (auto simp: check_constraint_True_iff truthy_def)
    from check_browser_versions_True [OF this hi(2,3)]
    have "max_bound_ok c (Some mx) (last_segment t)"
      by (simp add: check_version_spec hi(4))
    with hi(5,6) show False
      by (auto simp: max_bound_ok_def truthy_def split: option.splits)
  next
    case eng
    with ok truthy_value_own [of engs "engine k" r]
    have "check_engine_range c (Str r) (Some mn) (maxVersion k) = Inr True"
      by (auto simp: check_constraint_True_iff truthy_def)
    then have "engine_min_check c (Str r) (Some mn) = Inr True"
      by (simp add: check_engine_range_def and_then_True_iff)
    with eng(4,5) show False
      by (auto simp: engine_min_check_def truthy_def Let_def split: sum.splits option.splits)
  qed
qed

subsection \<open>Monotonicity of the bound checks\<close>

lemma check_browser_versions_mono:
  assumes "\<And>t. check_version c mn mx t \<Longrightarrow> check_version c mn' mx' t"
    and "check_browser_versions c mn mx vs = Inr True"
  shows "check_browser_versions c mn' mx' vs = Inr True"
  using assms(2)
  by (induction vs) (auto split: if_splits sum.splits list.splits intro: assms(1))

lemma satisfies_single_True_iff:
  "satisfies c pkg [k] = Inr True \<longleftrightarrow>
     (\<exists>bm. parse_browserslist c (browserslist pkg) = Inr bm
        \<and> check_constraint c (engines_of pkg) bm k = Inr True)"
  by (auto simp: satisfies_def and_then_True_iff split: sum.splits)

lemma semver_order_trans:
  "semver_order c \<Longrightarrow> gte c a b \<Longrightarrow> gte c b d \<Longrightarrow> gte c a d"
  unfolding semver_order_def by blast

lemma semver_order_lte: "semver_order c \<Longrightarrow> lte c a b = gte c b a"
  unfolding semver_order_def by blast

lemma min_bound_ok_mono:
  assumes "semver_order c" "V \<noteq> []" "semverCoerce c V = Some v" "semverCoerce c V' = Some v'"
    "lte c v' v" "min_bound_ok c (Some V) low"
  shows "min_bound_ok c (Some V') low"
proof (cases "V' = []")
  case True
  then show ?thesis by (simp add: min_bound_ok_def truthy_def)
next
  case False
  from assms(2,6) obtain a where a: "semverCoerce c low = Some a" "gte c a v"
    by (auto simp: min_bound_ok_def truthy_def assms(3) split: option.splits)
  from assms(1,5) have "gte c v v'" by (simp add: semver_order_lte)
  with a(2) have "gte c a v'" by (rule semver_order_trans [OF assms(1)])
  with a(1) False show ?thesis
    by (simp add: min_bound_ok_def truthy_def assms(4))
qed

lemma max_bound_ok_mono:
  assumes "semver_order c" "W \<noteq> []" "semverCoerce c W = Some w" "semverCoerce c W' = Some w'"
    "gte c w' w" "max_bound_ok c (Some W) high"
  shows "max_bound_ok c (Some W') high"
proof (cases "W' = []")
  case True
  then show ?thesis by (simp add: max_bound_ok_def truthy_def)
next
  case False
  from assms(2,6) obtain a where a: "semverCoerce c high = Some a" "lte c a w"
    by (auto simp: max_bound_ok_def truthy_def assms(3) split: option.splits)
  from assms(1) a(2) have "gte c w a" by (simp add: semver_order_lte)
  with assms(5) have "gte c w' a" by (rule semver_order_trans [OF assms(1)])
  with assms(1) have "lte c a w'" by (simp add: semver_order_lte)
  with a(1) False show ?thesis
    by (simp add: max_bound_ok_def truthy_def assms(4))
qed

lemma engine_min_check_mono:
  assumes "semver_order c" "V \<noteq> []" "semverCoerce c V = Some v" "semverCoerce c V' = Some v'"
    "lte c v' v" "engine_min_check c r (Some V) = Inr True"
  shows "engine_min_check c r (Some V') = Inr True"
proof (cases "V' = []")
  case True
  then show ?thesis by (simp add: engine_min_check_def truthy_def)
next
  case False
  from assms(2,6) obtain l where l: "semverMinVersion c r = Inr (Some l)" "gte c l v"
    by (auto simp: engine_min_check_def truthy_def Let_def assms(3)
          split: sum.splits option.splits if_splits)
  from assms(1,5) have "gte c v v'" by (simp add: semver_order_lte)
  with l(2) have "gte c l v'" by (rule semver_order_trans [OF assms(1)])
  with l(1) False show ?thesis
    by (simp add: engine_min_check_def truthy_def Let_def assms(4))
qed

lemma table_libs_order: "semver_order table_libs"
  by (auto simp: semver_order_def table_libs_def ver_gte_def)

subsection \<open>Runs whose library calls return\<close>

lemma check_browser_versions_returns:
  "''TP'' \<notin> set vs \<or> \<not> isl (browserslist_fn c (Query ''last 1 safari version'')) \<Longrightarrow>
   \<not> isl (check_browser_versions c mn mx vs)"
  by (induction vs) (auto split: sum.splits list.splits)

lemma check_engine_range_returns:
  assumes "truthy mn = None \<or> \<not> isl (semverMinVersion c v)"
    and "\<And>m. truthy mx = Some m \<Longrightarrow> \<not> isl (semverIntersects c v (''>'' @ m))"
  shows "\<not> isl (check_engine_range c v mn mx)"
proof -
  have "\<not> isl (engine_min_check c v mn)"
    using assms(1)
    by (cases "semverMinVersion c v")
       (auto simp: engine_min_check_def Let_def split: option.splits)
  moreover have "\<not> isl (engine_max_check c v mx)"
  proof (cases "truthy mx")
    case None
    then show ?thesis by (simp add: engine_max_check_def)
  next
    case (Some m)
    with assms(2) [OF Some] show ?thesis
      by (cases "semverIntersects c v (''>'' @ m)") (auto simp: engine_max_check_def)
  qed
  ultimately show ?thesis
    by (simp add: check_engine_range_def isl_and_then)
qed

lemma check_constraint_returns:
  assumes "\<And>vs. bm (engine k) = Some vs \<Longrightarrow> ''TP'' \<in> set vs \<Longrightarrow>
             \<not> isl (browserslist_fn c (Query ''last 1 safari version''))"
    and "\<And>v. truthy_value (get_property engs (engine k)) = Some v \<Longrightarrow>
           (truthy (minVersion k) = None \<or> \<not> isl (semverMinVersion c v))
           \<and> (\<forall>m. truthy (maxVersion k) = Some m \<longrightarrow>
                 \<not> isl (semverIntersects c v (''>'' @ m)))"
  shows "\<not> isl (check_constraint c engs bm k)"
proof -
  have e: "\<not> isl (check_engine_range c v (minVersion k) (maxVersion k))"
    if "truthy_value (get_property engs (engine k)) = Some v" for v
    using assms(2) [OF that] by (intro check_engine_range_returns) auto
  have b: "\<not> isl (check_browser_versions c (minVersion k) (maxVersion k) vs)"
    if "bm (engine k) = Some vs" for vs
    using assms(1) [OF that] by (intro check_browser_versions_returns) auto
  show ?thesis
    by (simp add: check_constraint_def Let_def isl_and_then e b split: option.splits)
qed

lemma parse_browserslist_query_list:
  assumes "\<forall>props. field \<noteq> Some (BRecord props)"
  shows "parse_browserslist c field = resolve_query_list c (query_list_of field)"
  using assms
  by (auto simp: parse_browserslist_def query_list_of_def resolve_query_list_def
        split: option.splits browserslist_field.splits)

lemma satisfies_calls_return:
  assumes "calls_return c pkg reqs" and "\<forall>props. browserslist pkg \<noteq> Some (BRecord props)"
  shows "\<exists>b. satisfies c pkg reqs = Inr b"
proof -
  from assms(1) have q: "query_list_of (browserslist pkg) = []
      \<or> \<not> isl (browserslist_fn c (Queries (query_list_of (browserslist pkg))))"
    by (simp add: calls_return_def)
  have "\<exists>bm. resolve_query_list c (query_list_of (browserslist pkg)) = Inr bm"
  proof (cases "query_list_of (browserslist pkg) = []")
    case True
    then show ?thesis by (simp add: resolve_query_list_def)
  next
    case False
    with q obtain rs
      where "browserslist_fn c (Queries (query_list_of (browserslist pkg))) = Inr rs"
      by (auto dest: not_isl_Inr)
    with False show ?thesis by (simp add: resolve_query_list_def)
  qed
  then obtain bm where bm: "parse_browserslist c (browserslist pkg) = Inr bm"
    unfolding parse_browserslist_query_list [OF assms(2)] by blast
  then have rm: "resolved_map c pkg = bm"
    by (simp add: resolved_map_def)
  have "\<not> isl (check_constraint c (engines_of pkg) bm k)" if "k \<in> set reqs" for k
  proof (rule check_constraint_returns)
    fix vs assume "bm (engine k) = Some vs" "''TP'' \<in> set vs"
    with that rm have "list_ex (\<lambda>k. case resolved_map c pkg (engine k) of
                       None \<Rightarrow> False | Some vs \<Rightarrow> ''TP'' \<in> set vs) reqs"
      unfolding list_ex_iff by (intro bexI [of _ k]) simp_all
    with assms(1) show "\<not> isl (browserslist_fn c (Query ''last 1 safari version''))"
      by (simp add: calls_return_def)
  next
    fix v assume v: "truthy_value (get_property (engines_of pkg) (engine k)) = Some v"
    from assms(1) that
    have "case truthy_value (get_property (engines_of pkg) (engine k)) of
               None \<Rightarrow> True
             | Some v \<Rightarrow>
                 (case truthy (minVersion k) of
                    None \<Rightarrow> True
                  | Some mn \<Rightarrow> \<not> isl (semverMinVersion c v))
                 \<and> (case truthy (maxVersion k) of
                      None \<Rightarrow> True
                    | Some mx \<Rightarrow> \<not> isl (semverIntersects c v (''>'' @ mx)))"
      unfolding calls_return_def list_all_iff by blast
    then have "(case truthy (minVersion k) of
                    None \<Rightarrow> True
                  | Some mn \<Rightarrow> \<not> isl (semverMinVersion c v))
                 \<and> (case truthy (maxVersion k) of
                      None \<Rightarrow> True
                    | Some mx \<Rightarrow> \<not> isl (semverIntersects c v (''>'' @ mx)))"
      by (simp add: v)
    then show "(truthy (minVersion k) = None \<or> \<not> isl (semverMinVersion c v))
           \<and> (\<forall>m. truthy (maxVersion k) = Some m \<longrightarrow>
                 \<not> isl (semverIntersects c v (''>'' @ m)))"
      by (cases "truthy (minVersion k)"; cases "truthy (maxVersion k)") simp_all
  qed
  then have "\<not> isl (satisfies_loop c (engines_of pkg) bm reqs)"
    by (induction reqs) (simp_all add: isl_and_then)
  with bm show ?thesis
    by (auto simp: satisfies_def dest: not_isl_Inr)
qed

subsection \<open>Where a library exception comes from\<close>






subsection \<open>The verdict of the token loop\<close>


lemma check_browser_versions_cong:
  assumes "\<And>t. check_version c mn mx t = check_version c mn' mx' t"
  shows "check_browser_versions c mn mx vs = check_browser_versions c mn' mx' vs"
  by (induction vs) (auto simp: assms split: sum.splits list.splits)

lemma check_constraint_truthy_cong:
  assumes "truthy mn = truthy mn'" and "truthy mx = truthy mx'"
  shows "check_constraint c engs bm \<lparr>engine = e, minVersion = mn, maxVersion = mx\<rparr>
       = check_constraint c engs bm \<lparr>engine = e, minVersion = mn', maxVersion = mx'\<rparr>"
proof -
  have v: "check_version c mn mx t = check_version c mn' mx' t" for t
    by (simp add: check_version_def Let_def assms)
  have "check_engine_range c r mn mx = check_engine_range c r mn' mx'" for r
    by (simp add: check_engine_range_def engine_min_check_def engine_max_check_def assms)
  moreover have "check_browser_versions c mn mx vs = check_browser_versions c mn' mx' vs" for vs
    by (rule check_browser_versions_cong) (rule v)
  ultimately show ?thesis
    by (simp add: check_constraint_def Let_def assms split: option.splits)
qed

lemma satisfies_constraint_cong:
  assumes "\<And>bm. check_constraint c (engines_of pkg) bm k
             = check_constraint c (engines_of pkg) bm k'"
  shows "satisfies c pkg (xs @ k # ys) = satisfies c pkg (xs @ k' # ys)"
  by (cases "parse_browserslist c (browserslist pkg)")
     (simp_all add: satisfies_def satisfies_loop_append assms)

section \<open>Results\<close>

text \<open>
  C1, as the code has it. \<^verbatim>\<open>parse_browserslist(pkg.browserslist)\<close> runs before the loop,
  so the manifest's browserslist field is inspected even for an empty requirement list.
  With the field absent, a string or a list of strings the verdict is \<open>true\<close> whatever
  the engines are, provided the resolver, which is called for a string and for a
  non-empty list, returns; what the resolver throws, on the string or on the list,
  propagates; with the record form the unsupported-format error is raised.
\<close>

theorem empty_requirements:
  "(browserslist pkg = None \<or> browserslist pkg = Some (BArray [])
      \<longrightarrow> satisfies c pkg [] = Inr True)
   \<and> (browserslist pkg = Some (BString q) \<and> browserslist_fn c (Queries [q]) = Inr rs
      \<longrightarrow> satisfies c pkg [] = Inr True)
   \<and> (browserslist pkg = Some (BArray qs) \<and> browserslist_fn c (Queries qs) = Inr rs
      \<longrightarrow> satisfies c pkg [] = Inr True)
   \<and> (browserslist pkg = Some (BString q) \<and> browserslist_fn c (Queries [q]) = Inl msg
      \<longrightarrow> satisfies c pkg [] = Inl (LibraryError msg))
   \<and> (browserslist pkg = Some (BArray qs) \<and> qs \<noteq> []
        \<and> browserslist_fn c (Queries qs) = Inl msg
      \<longrightarrow> satisfies c pkg [] = Inl (LibraryError msg))
   \<and> (browserslist pkg = Some (BRecord props)
      \<longrightarrow> satisfies c pkg [] =
            Inl (UnsupportedFormat
                   (''Unsupported browserslist format: '' @ JSON_stringify props)))"
  by (auto simp: satisfies_def parse_browserslist_def resolve_query_list_def)

theorem empty_requirements_witness:
  "browserslist
     \<lparr>engines = Some [''node'' \<mapsto> ''not a range''],
      browserslist = Some (BArray [''chrome 100''])\<rparr> = Some (BArray [''chrome 100''])
   \<and> browserslist_fn table_libs (Queries [''chrome 100'']) = Inr [''chrome 100'']
   \<and> satisfies table_libs
       \<lparr>engines = Some [''node'' \<mapsto> ''not a range''],
        browserslist = Some (BArray [''chrome 100''])\<rparr> [] = Inr True"
proof -
  have q: "browserslist_fn table_libs (Queries [''chrome 100'']) = Inr [''chrome 100'']"
    by (simp add: table_defs)
  show ?thesis
    using q empty_requirements
      [where pkg = "\<lparr>engines = Some [''node'' \<mapsto> ''not a range''],
                     browserslist = Some (BArray [''chrome 100''])\<rparr>"
         and c = table_libs and qs = "[''chrome 100'']" and rs = "[''chrome 100'']"]
    by simp
qed

text \<open>
  C1 as stated fails: with the record form of the browserslist field the call with an
  empty requirement list raises the unsupported-format error.
\<close>

theorem empty_requirements_counterexample:
  "satisfies table_libs
     \<lparr>engines = None,
      browserslist = Some (BRecord [(''production'', QArray [''chrome 100''])])\<rparr> []
   = Inl (UnsupportedFormat
       (''Unsupported browserslist format: {'' @ [CHR 0x22] @ ''production'' @ [CHR 0x22]
          @ '':['' @ [CHR 0x22] @ ''chrome 100'' @ [CHR 0x22] @ '']}''))"
  by (simp add: satisfies_def parse_browserslist_def JSON_stringify_def json_string_def
        json_char_def)




text \<open>
  C3, as the code has it. Take a constraint whose engine has a non-empty declared range,
  and let the two library calls return. A non-empty \<^verbatim>\<open>minVersion\<close> fails the lower-bound
  check exactly when the infimum or the coerced minimum did not resolve or the infimum is
  not at least the minimum; a non-empty \<^verbatim>\<open>maxVersion\<close> fails the upper-bound check
  exactly when the range intersects \<^verbatim>\<open>'>' + maxVersion\<close>. A failed check makes
  \<open>satisfies\<close> answer \<open>false\<close> whatever follows, and when the engine has no resolved
  browser versions the verdict on that single constraint is exactly that no check failed.
  A bound that is the empty string is treated as absent: its check against the range
  passes without a library call, and the verdict of \<open>satisfies\<close> is the one for the
  requirement list in which that bound is left out.
\<close>

theorem engine_range_bounds:
  assumes "engines_of pkg e = Some r" and "r \<noteq> []"
    and "parse_browserslist c (browserslist pkg) = Inr bm"
    and "semverMinVersion c (Str r) = Inr lowest"
    and "semverIntersects c (Str r) (''>'' @ mx) = Inr hit"
    and "mn \<noteq> []" and "mx \<noteq> []"
  shows "engine_min_check c (Str r) (Some mn)
           = Inr (\<not> unresolved_or_below c lowest (semverCoerce c mn))
       \<and> engine_max_check c (Str r) (Some mx) = Inr (\<not> hit)
       \<and> (bm e = None \<longrightarrow>
            satisfies c pkg [\<lparr>engine = e, minVersion = Some mn, maxVersion = None\<rparr>]
              = Inr (\<not> unresolved_or_below c lowest (semverCoerce c mn))
          \<and> satisfies c pkg [\<lparr>engine = e, minVersion = None, maxVersion = Some mx\<rparr>]
              = Inr (\<not> hit)
          \<and> satisfies c pkg [\<lparr>engine = e, minVersion = Some mn, maxVersion = Some mx\<rparr>]
              = Inr (\<not> unresolved_or_below c lowest (semverCoerce c mn) \<and> \<not> hit))
       \<and> (unresolved_or_below c lowest (semverCoerce c mn) \<longrightarrow>
            satisfies c pkg (\<lparr>engine = e, minVersion = Some mn, maxVersion = mxo\<rparr> # rest)
              = Inr False)
       \<and> (hit \<longrightarrow>
            satisfies c pkg (\<lparr>engine = e, minVersion = None, maxVersion = Some mx\<rparr> # rest)
              = Inr False
          \<and> satisfies c pkg (\<lparr>engine = e, minVersion = Some mn, maxVersion = Some mx\<rparr> # rest)
              = Inr False)
       \<and> engine_min_check c (Str r) (Some []) = Inr True
       \<and> engine_max_check c (Str r) (Some []) = Inr True
       \<and> satisfies c pkg (xs @ \<lparr>engine = e, minVersion = Some [], maxVersion = mxo\<rparr> # ys)
         = satisfies c pkg (xs @ \<lparr>engine = e, minVersion = None, maxVersion = mxo\<rparr> # ys)
       \<and> satisfies c pkg (xs @ \<lparr>engine = e, minVersion = mno, maxVersion = Some []\<rparr> # ys)
         = satisfies c pkg (xs @ \<lparr>engine = e, minVersion = mno, maxVersion = None\<rparr> # ys)"
proof -
  note mi = engine_min_check_spec [OF assms(4) assms(6)]
  note ma = engine_max_check_spec [OF assms(5) assms(7)]
  note single = satisfies_single [OF assms(3)]
  have t: "truthy (Some mn) \<noteq> None" "truthy (Some mx) \<noteq> None"
    using assms(6,7) by (simp_all add: truthy_def)
  have only: "satisfies c pkg [\<lparr>engine = e, minVersion = a, maxVersion = b\<rparr>]
      = check_engine_range c (Str r) a b"
    if "bm e = None" "truthy a \<noteq> None \<or> truthy b \<noteq> None" for a b
    using check_constraint_engine_only
      [where engs = "engines_of pkg" and bm = bm and c = c, OF assms(1,2) that]
    by (cases "check_engine_range c (Str r) a b") (auto simp: single and_then_def)
  have 3: "satisfies c pkg [\<lparr>engine = e, minVersion = Some mn, maxVersion = None\<rparr>]
              = Inr (\<not> unresolved_or_below c lowest (semverCoerce c mn))
          \<and> satisfies c pkg [\<lparr>engine = e, minVersion = None, maxVersion = Some mx\<rparr>]
              = Inr (\<not> hit)
          \<and> satisfies c pkg [\<lparr>engine = e, minVersion = Some mn, maxVersion = Some mx\<rparr>]
              = Inr (\<not> unresolved_or_below c lowest (semverCoerce c mn) \<and> \<not> hit)"
    if "bm e = None"
    using t by (auto simp: only [OF that] check_engine_range_def mi ma and_then_def)
  have fails: "satisfies c pkg (\<lparr>engine = e, minVersion = a, maxVersion = b\<rparr> # rest)
      = Inr False"
    if "check_engine_range c (Str r) a b = Inr False" for a b
    using check_constraint_engine_fails
      [where engs = "engines_of pkg" and bm = bm, OF assms(1,2) that]
    by (simp add: single and_then_def)
  have 4: "satisfies c pkg (\<lparr>engine = e, minVersion = Some mn, maxVersion = mxo\<rparr> # rest)
      = Inr False"
    if "unresolved_or_below c lowest (semverCoerce c mn)"
    by (rule fails) (use that in \<open>simp add: check_engine_range_def mi and_then_def\<close>)
  have 5: "satisfies c pkg (\<lparr>engine = e, minVersion = None, maxVersion = Some mx\<rparr> # rest)
              = Inr False
          \<and> satisfies c pkg (\<lparr>engine = e, minVersion = Some mn, maxVersion = Some mx\<rparr> # rest)
              = Inr False"
    if hit
    using that by (auto intro!: fails simp: check_engine_range_def mi ma and_then_def)
  have 6: "engine_min_check c (Str r) (Some []) = Inr True"
    "engine_max_check c (Str r) (Some []) = Inr True"
    by (simp_all add: engine_min_check_def engine_max_check_def truthy_def)
  have 7: "satisfies c pkg (xs @ \<lparr>engine = e, minVersion = Some [], maxVersion = mxo\<rparr> # ys)
         = satisfies c pkg (xs @ \<lparr>engine = e, minVersion = None, maxVersion = mxo\<rparr> # ys)"
    by (intro satisfies_constraint_cong check_constraint_truthy_cong)
       (simp_all add: truthy_def)
  have 8: "satisfies c pkg (xs @ \<lparr>engine = e, minVersion = mno, maxVersion = Some []\<rparr> # ys)
         = satisfies c pkg (xs @ \<lparr>engine = e, minVersion = mno, maxVersion = None\<rparr> # ys)"
    by (intro satisfies_constraint_cong check_constraint_truthy_cong)
       (simp_all add: truthy_def)
  from mi ma 3 4 5 6 7 8 show ?thesis by blast
qed

theorem engine_range_bounds_witness:
  "engines_of \<lparr>engines = Some [''node'' \<mapsto> ''>=12''], browserslist = None\<rparr> ''node''
     = Some ''>=12''
   \<and> semverMinVersion table_libs (Str ''>=12'') = Inr (Some (12, 0, 0))
   \<and> semverIntersects table_libs (Str ''>=12'') (''>'' @ ''18'') = Inr True
   \<and> unresolved_or_below table_libs (Some (12, 0, 0)) (semverCoerce table_libs ''14'')
   \<and> satisfies table_libs \<lparr>engines = Some [''node'' \<mapsto> ''>=12''], browserslist = None\<rparr>
       [\<lparr>engine = ''node'', minVersion = Some ''14'', maxVersion = None\<rparr>] = Inr False
   \<and> satisfies table_libs \<lparr>engines = Some [''node'' \<mapsto> ''>=12''], browserslist = None\<rparr>
       [\<lparr>engine = ''node'', minVersion = None, maxVersion = Some ''18''\<rparr>] = Inr False
   \<and> satisfies table_libs \<lparr>engines = Some [''node'' \<mapsto> ''>=12''], browserslist = None\<rparr>
       [\<lparr>engine = ''node'', minVersion = Some [], maxVersion = Some ''18''\<rparr>] = Inr False"
proof -
  let ?pkg = "\<lparr>engines = Some [''node'' \<mapsto> ''>=12''], browserslist = None\<rparr>"
  have e: "engines_of ?pkg ''node'' = Some ''>=12''"
    by (simp add: engines_of_def)
  have p: "parse_browserslist table_libs (browserslist ?pkg) = Inr Map.empty"
    by (simp add: parse_browserslist_def)
  have l: "semverMinVersion table_libs (Str ''>=12'') = Inr (Some (12, 0, 0))"
    by (simp add: table_defs)
  have i: "semverIntersects table_libs (Str ''>=12'') (''>'' @ ''18'') = Inr True"
    by (simp add: table_defs)
  have u: "unresolved_or_below table_libs (Some (12, 0, 0)) (semverCoerce table_libs ''14'')"
    by (simp add: unresolved_or_below_def table_defs)
  from engine_range_bounds
    [OF e _ p l i, where mn = "''14''" and mxo = "Some ''18''" and xs = "[]" and ys = "[]"]
    u e l i
  show ?thesis by simp
qed

text \<open>
  C3 as stated fails: an empty \<^verbatim>\<open>minVersion\<close> is present and does not coerce, yet the
  check is not made and the decision passes.
\<close>

theorem engine_range_bounds_counterexample:
  "engines_of \<lparr>engines = Some [''node'' \<mapsto> ''>=12''], browserslist = None\<rparr> ''node''
     = Some ''>=12''
   \<and> minVersion \<lparr>engine = ''node'', minVersion = Some '''', maxVersion = None\<rparr> = Some ''''
   \<and> semverCoerce table_libs '''' = None
   \<and> satisfies table_libs \<lparr>engines = Some [''node'' \<mapsto> ''>=12''], browserslist = None\<rparr>
       [\<lparr>engine = ''node'', minVersion = Some '''', maxVersion = None\<rparr>] = Inr True"
  by (simp add: run_defs table_defs)

text \<open>
  C4. The token the checks see is cut at every hyphen; the lower-bound check reads the
  segment before the first hyphen and the upper-bound check the segment after the last
  one, however many hyphens there are, and a token without a hyphen is both segments.
  Each bound check coerces both sides and fails when one does not coerce.
\<close>

theorem range_token_bounds:
  "hd (split v (CHR ''-'')) = first_segment v
   \<and> last (split v (CHR ''-'')) = last_segment v
   \<and> (CHR ''-'' \<notin> set v \<longrightarrow> first_segment v = v \<and> last_segment v = v)
   \<and> check_version c minV maxV v =
       (min_bound_ok c minV (first_segment v) \<and> max_bound_ok c maxV (last_segment v))
   \<and> (v \<noteq> ''TP'' \<longrightarrow>
        check_browser_versions c minV maxV (v # rest) =
          (if min_bound_ok c minV (first_segment v) \<and> max_bound_ok c maxV (last_segment v)
           then check_browser_versions c minV maxV rest else Inr False))"
proof -
  have "first_segment v = v \<and> last_segment v = v" if "CHR ''-'' \<notin> set v"
  proof -
    from that have a: "takeWhile (\<lambda>x. x \<noteq> CHR ''-'') v = v"
      by (intro takeWhile_eq_all_conv [THEN iffD2]) auto
    from that have b: "takeWhile (\<lambda>x. x \<noteq> CHR ''-'') (rev v) = rev v"
      by (intro takeWhile_eq_all_conv [THEN iffD2]) auto
    show ?thesis
      unfolding first_segment_def last_segment_def a b by simp
  qed
  moreover have "hd (split v (CHR ''-'')) = first_segment v"
    by (simp add: hd_split first_segment_def)
  moreover have "last (split v (CHR ''-'')) = last_segment v"
    by (simp add: last_split last_segment_def)
  moreover have "check_browser_versions c minV maxV (v # rest) =
          (if min_bound_ok c minV (first_segment v) \<and> max_bound_ok c maxV (last_segment v)
           then check_browser_versions c minV maxV rest else Inr False)"
    if "v \<noteq> ''TP''"
    using that by (simp add: check_version_spec)
  ultimately show ?thesis
    using check_version_spec [of c minV maxV v] by blast
qed

theorem range_token_bounds_witness:
  "hd (split ''17.5-17.6'' (CHR ''-'')) = ''17.5''
   \<and> last (split ''17.5-17.6'' (CHR ''-'')) = ''17.6''
   \<and> first_segment ''1-2-3'' = ''1'' \<and> last_segment ''1-2-3'' = ''3''
   \<and> first_segment ''120'' = ''120'' \<and> last_segment ''120'' = ''120''
   \<and> check_browser_versions table_libs (Some ''17'') (Some ''18'') [''17.5-17.6''] = Inr True
   \<and> check_browser_versions table_libs (Some ''18'') None [''17.5-17.6''] = Inr False"
  using range_token_bounds [of "''17.5-17.6''" table_libs "Some ''17''" "Some ''18''" "[]"]
    range_token_bounds [of "''17.5-17.6''" table_libs "Some ''18''" None "[]"]
  by (simp add: first_segment_def last_segment_def min_bound_ok_def max_bound_ok_def
        truthy_def table_defs)

text \<open>
  C5. The claim is what the comment of lines 75 and 76 says, and the code does not keep
  it: \<^verbatim>\<open>engines[engine]\<close> reads through the prototype chain, so for a requirement on
  \<^verbatim>\<open>toString\<close>, a name that is in neither map, the value read is a function, line 77
  does not continue, and the function is handed to \<^verbatim>\<open>semver\<close>, which throws.
\<close>

theorem untargeted_inherited_name_throws:
  "engines_of \<lparr>engines = None, browserslist = None\<rparr> ''toString'' = None
   \<and> parse_browserslist table_libs (browserslist \<lparr>engines = None, browserslist = None\<rparr>)
     = Inr Map.empty
   \<and> get_property (engines_of \<lparr>engines = None, browserslist = None\<rparr>) ''toString''
     = Some (Inherited ''toString'')
   \<and> satisfies table_libs \<lparr>engines = None, browserslist = None\<rparr>
       [\<lparr>engine = ''toString'', minVersion = Some ''1'', maxVersion = None\<rparr>]
     = Inl (LibraryError ''range.trim is not a function'')"
  by (simp add: run_defs table_defs)

text \<open>
  For every engine name that \<^verbatim>\<open>Object.prototype\<close> does not define the rule holds: a
  constraint whose engine is in neither map is passed over, and the verdict of
  \<open>satisfies\<close> (an exception included) is the one for the requirement list without it.
\<close>

lemma untargeted_plain_name_satisfied:
  assumes "engines_of pkg (engine k) = None"
    and "engine k \<notin> set object_prototype_names"
    and "\<forall>bm. parse_browserslist c (browserslist pkg) = Inr bm \<longrightarrow> bm (engine k) = None"
  shows "(\<forall>bm. parse_browserslist c (browserslist pkg) = Inr bm \<longrightarrow>
            check_constraint c (engines_of pkg) bm k = Inr True)
       \<and> satisfies c pkg (xs @ k # ys) = satisfies c pkg (xs @ ys)"
proof -
  have skip: "check_constraint c (engines_of pkg) bm k = Inr True"
    if "parse_browserslist c (browserslist pkg) = Inr bm" for bm
    using assms that
    by (simp add: check_constraint_def get_property_def truthy_value_def)
  have "satisfies c pkg (xs @ k # ys) = satisfies c pkg (xs @ ys)"
    by (rule satisfies_skip) (rule skip)
  with skip show ?thesis by blast
qed

text \<open>
  C6, as the code has it. When a bound check that is evaluated meets a value that does
  not coerce (the relevant segment of a browser token, a non-empty \<^verbatim>\<open>minVersion\<close> in
  either check, a non-empty \<^verbatim>\<open>maxVersion\<close> in the browser check), \<open>satisfies\<close> cannot
  answer \<open>true\<close>, and answers \<open>false\<close> when no library call throws (it is enough that
  the calls the run can reach return). The upper-bound check
  against an engine range is absent from the list: it never coerces \<^verbatim>\<open>maxVersion\<close>.
\<close>

theorem uncoercible_bound_fails:
  assumes "parse_browserslist c (browserslist pkg) = Inr bm"
    and "k \<in> set reqs"
    and "uncoercible_check c (engines_of pkg) bm k"
  shows "satisfies c pkg reqs \<noteq> Inr True
       \<and> (no_throw c \<longrightarrow> satisfies c pkg reqs = Inr False)
       \<and> (calls_return c pkg reqs \<longrightarrow> satisfies c pkg reqs = Inr False)"
proof -
  have eq: "satisfies c pkg reqs = satisfies_loop c (engines_of pkg) bm reqs"
    using assms(1) by (simp add: satisfies_def)
  have n: "satisfies c pkg reqs \<noteq> Inr True"
    using uncoercible_check_not_True [OF assms(3)] assms(2)
    by (auto simp: eq satisfies_loop_True_iff)
  have "satisfies c pkg reqs = Inr False" if "no_throw c"
  proof -
    from satisfies_loop_no_throw [OF that, of "engines_of pkg" bm reqs]
    obtain b where "satisfies c pkg reqs = Inr b"
      by (auto simp: eq dest: not_isl_Inr)
    with n show ?thesis by (cases b) auto
  qed
  moreover have "satisfies c pkg reqs = Inr False" if "calls_return c pkg reqs"
  proof -
    from assms(1) have "\<forall>props. browserslist pkg \<noteq> Some (BRecord props)"
      by (auto simp: parse_browserslist_def)
    from satisfies_calls_return [OF that this]
    obtain b where "satisfies c pkg reqs = Inr b" ..
    with n show ?thesis by (cases b) auto
  qed
  ultimately show ?thesis using n by blast
qed

theorem uncoercible_bound_fails_witness:
  "parse_browserslist table_libs
     (browserslist \<lparr>engines = None, browserslist = Some (BArray [''op_mini all''])\<rparr>)
     = Inr [''op_mini'' \<mapsto> [''all'']]
   \<and> semverCoerce table_libs (first_segment ''all'') = None
   \<and> calls_return table_libs
       \<lparr>engines = None, browserslist = Some (BArray [''op_mini all''])\<rparr>
       [\<lparr>engine = ''op_mini'', minVersion = Some ''1'', maxVersion = None\<rparr>]
   \<and> satisfies table_libs \<lparr>engines = None, browserslist = Some (BArray [''op_mini all''])\<rparr>
       [\<lparr>engine = ''op_mini'', minVersion = Some ''1'', maxVersion = None\<rparr>] = Inr False"
proof -
  let ?pkg = "\<lparr>engines = None, browserslist = Some (BArray [''op_mini all''])\<rparr>"
  let ?k = "\<lparr>engine = ''op_mini'', minVersion = Some ''1'', maxVersion = None\<rparr>"
  have p: "parse_browserslist table_libs (browserslist ?pkg) = Inr [''op_mini'' \<mapsto> [''all'']]"
    by (simp add: parse_browserslist_def resolve_query_list_def table_defs)
  have c: "semverCoerce table_libs (first_segment ''all'') = None"
    by (simp add: first_segment_def table_defs)
  have "effective_token table_libs ''all'' = Some ''all''"
    by (simp add: effective_token_def)
  with c have u: "uncoercible_check table_libs (engines_of ?pkg) [''op_mini'' \<mapsto> [''all'']] ?k"
    unfolding uncoercible_check_def by simp
  have k: "?k \<in> set [?k]" by simp
  have r: "calls_return table_libs ?pkg [?k]"
    by (simp add: calls_return_def query_list_of_def resolved_map_def run_defs table_defs)
  from uncoercible_bound_fails [OF p k u] r p c
  show ?thesis by simp
qed

text \<open>
  C6 as stated fails: \<^verbatim>\<open>*\<close> does not coerce, the upper-bound check against the engine
  range is evaluated, and the decision passes, because that check asks the library
  whether the range meets \<^verbatim>\<open>>*\<close> and never coerces the bound.
\<close>

theorem uncoercible_bound_fails_counterexample:
  "semverCoerce table_libs ''*'' = None
   \<and> engines_of \<lparr>engines = Some [''node'' \<mapsto> ''>=12''], browserslist = None\<rparr> ''node''
     = Some ''>=12''
   \<and> satisfies table_libs \<lparr>engines = Some [''node'' \<mapsto> ''>=12''], browserslist = None\<rparr>
       [\<lparr>engine = ''node'', minVersion = None, maxVersion = Some ''*''\<rparr>] = Inr True"
  by (simp add: run_defs table_defs)



text \<open>
  C8. For two constraints on different engines, the verdict on the list of both is the
  JavaScript conjunction \<^verbatim>\<open>satisfies(pkg, [A]) && satisfies(pkg, [B])\<close>: the same boolean,
  and the same exception when one is raised.
\<close>

theorem two_constraints_conjunction:
  "engine A \<noteq> engine B \<Longrightarrow>
     satisfies c pkg [A, B] = and_then (satisfies c pkg [A]) (satisfies c pkg [B])"
  using satisfies_append [of c pkg "[A]" "[B]"] by simp

theorem two_constraints_conjunction_witness:
  "engine \<lparr>engine = ''node'', minVersion = Some ''14'', maxVersion = None\<rparr>
     \<noteq> engine \<lparr>engine = ''chrome'', minVersion = Some ''100'', maxVersion = None\<rparr>
   \<and> satisfies table_libs
       \<lparr>engines = Some [''node'' \<mapsto> ''>=12''], browserslist = Some (BArray [''chrome 100''])\<rparr>
       [\<lparr>engine = ''node'', minVersion = Some ''14'', maxVersion = None\<rparr>,
        \<lparr>engine = ''chrome'', minVersion = Some ''100'', maxVersion = None\<rparr>]
     = and_then
         (satisfies table_libs
            \<lparr>engines = Some [''node'' \<mapsto> ''>=12''],
             browserslist = Some (BArray [''chrome 100''])\<rparr>
            [\<lparr>engine = ''node'', minVersion = Some ''14'', maxVersion = None\<rparr>])
         (satisfies table_libs
            \<lparr>engines = Some [''node'' \<mapsto> ''>=12''],
             browserslist = Some (BArray [''chrome 100''])\<rparr>
            [\<lparr>engine = ''chrome'', minVersion = Some ''100'', maxVersion = None\<rparr>])"
proof -
  have d: "engine \<lparr>engine = ''node'', minVersion = Some ''14'', maxVersion = None\<rparr>
     \<noteq> engine \<lparr>engine = ''chrome'', minVersion = Some ''100'', maxVersion = None\<rparr>"
    by simp
  show ?thesis
    using d two_constraints_conjunction [OF d, of table_libs] by blast
qed

text \<open>
  C9, as the code has it. Let the library's comparisons form an order. If a single
  requirement passes with the coercible lower bound \<open>V\<close>, it passes with every coercible
  \<open>V'\<close> below \<open>V\<close>. If it passes with the coercible upper bound \<open>W\<close>, it passes with every
  coercible \<open>W'\<close> above \<open>W\<close> when nothing truthy is read for the engine in the engines map
  (the browser versions decide alone), or when the library's intersection test is
  monotone in the cap for \<open>W\<close> and \<open>W'\<close>: the cap against an engine range is checked by
  intersecting with \<^verbatim>\<open>'>' + maxVersion\<close> and compares no coerced versions.
\<close>

theorem bound_monotonicity:
  assumes "semver_order c"
  shows "(V \<noteq> [] \<and> semverCoerce c V = Some v \<and> semverCoerce c V' = Some v' \<and> lte c v' v
          \<and> satisfies c pkg [\<lparr>engine = e, minVersion = Some V, maxVersion = mx\<rparr>] = Inr True
          \<longrightarrow> satisfies c pkg [\<lparr>engine = e, minVersion = Some V', maxVersion = mx\<rparr>] = Inr True)
       \<and> (W \<noteq> [] \<and> semverCoerce c W = Some w \<and> semverCoerce c W' = Some w' \<and> gte c w' w
          \<and> (truthy_value (get_property (engines_of pkg) e) = None \<or> cap_monotone c W W')
          \<and> satisfies c pkg [\<lparr>engine = e, minVersion = mn, maxVersion = Some W\<rparr>] = Inr True
          \<longrightarrow> satisfies c pkg [\<lparr>engine = e, minVersion = mn, maxVersion = Some W'\<rparr>] = Inr True)"
proof -
  let ?engs = "engines_of pkg"
  have lower: "satisfies c pkg [\<lparr>engine = e, minVersion = Some V', maxVersion = mx\<rparr>] = Inr True"
    if h: "V \<noteq> []" "semverCoerce c V = Some v" "semverCoerce c V' = Some v'" "lte c v' v"
      and s: "satisfies c pkg [\<lparr>engine = e, minVersion = Some V, maxVersion = mx\<rparr>] = Inr True"
  proof -
    from s obtain bm where bm: "parse_browserslist c (browserslist pkg) = Inr bm"
      and ok: "check_constraint c ?engs bm
                 \<lparr>engine = e, minVersion = Some V, maxVersion = mx\<rparr> = Inr True"
      by (auto simp: satisfies_single_True_iff)
    have ver: "check_version c (Some V') mx t" if "check_version c (Some V) mx t" for t
      using that min_bound_ok_mono [OF assms h]
      by (auto simp: check_version_spec)
    have eng: "check_engine_range c r (Some V') mx = Inr True"
      if "check_engine_range c r (Some V) mx = Inr True" for r
      using that engine_min_check_mono [OF assms h]
      by (auto simp: check_engine_range_def and_then_True_iff)
    from h(1) have t: "truthy (Some V) \<noteq> None" by (simp add: truthy_def)
    from ok t have "check_constraint c ?engs bm
        \<lparr>engine = e, minVersion = Some V', maxVersion = mx\<rparr> = Inr True"
      by (auto simp: check_constraint_True_iff intro: eng
            check_browser_versions_mono [where mn = "Some V" and mx = mx, OF ver])
    with bm show ?thesis by (auto simp: satisfies_single_True_iff)
  qed
  have upper: "satisfies c pkg [\<lparr>engine = e, minVersion = mn, maxVersion = Some W'\<rparr>] = Inr True"
    if h: "W \<noteq> []" "semverCoerce c W = Some w" "semverCoerce c W' = Some w'" "gte c w' w"
      and i: "truthy_value (get_property (engines_of pkg) e) = None \<or> cap_monotone c W W'"
      and s: "satisfies c pkg [\<lparr>engine = e, minVersion = mn, maxVersion = Some W\<rparr>] = Inr True"
  proof -
    from s obtain bm where bm: "parse_browserslist c (browserslist pkg) = Inr bm"
      and ok: "check_constraint c ?engs bm
                 \<lparr>engine = e, minVersion = mn, maxVersion = Some W\<rparr> = Inr True"
      by (auto simp: satisfies_single_True_iff)
    have ver: "check_version c mn (Some W') t" if "check_version c mn (Some W) t" for t
      using that max_bound_ok_mono [OF assms h]
      by (auto simp: check_version_spec)
    have eng: "check_engine_range c r mn (Some W') = Inr True"
      if r: "check_engine_range c r mn (Some W) = Inr True"
        "truthy_value (get_property ?engs e) = Some r" for r
    proof -
      from i r(2) have m: "cap_monotone c W W'" by simp
      from r(1) have "engine_max_check c r (Some W) = Inr True"
        by (simp add: check_engine_range_def and_then_True_iff)
      with h(1) have "semverIntersects c r (''>'' @ W) = Inr False"
        by (auto simp: engine_max_check_def truthy_def split: sum.splits if_splits)
      with m have "semverIntersects c r (''>'' @ W') = Inr False"
        unfolding cap_monotone_def by blast
      then have "engine_max_check c r (Some W') = Inr True"
        by (simp add: engine_max_check_def truthy_def)
      with r(1) show ?thesis
        by (simp add: check_engine_range_def and_then_True_iff)
    qed
    from h(1) have t: "truthy (Some W) \<noteq> None" by (simp add: truthy_def)
    from ok t have "check_constraint c ?engs bm
        \<lparr>engine = e, minVersion = mn, maxVersion = Some W'\<rparr> = Inr True"
      by (auto simp: check_constraint_True_iff intro: eng
            check_browser_versions_mono [where mn = mn and mx = "Some W", OF ver])
    with bm show ?thesis by (auto simp: satisfies_single_True_iff)
  qed
  have c1: "V \<noteq> [] \<and> semverCoerce c V = Some v \<and> semverCoerce c V' = Some v' \<and> lte c v' v
          \<and> satisfies c pkg [\<lparr>engine = e, minVersion = Some V, maxVersion = mx\<rparr>] = Inr True
          \<longrightarrow> satisfies c pkg [\<lparr>engine = e, minVersion = Some V', maxVersion = mx\<rparr>] = Inr True"
    using lower by simp
  have c2: "W \<noteq> [] \<and> semverCoerce c W = Some w \<and> semverCoerce c W' = Some w' \<and> gte c w' w
          \<and> (truthy_value (get_property (engines_of pkg) e) = None \<or> cap_monotone c W W')
          \<and> satisfies c pkg [\<lparr>engine = e, minVersion = mn, maxVersion = Some W\<rparr>] = Inr True
          \<longrightarrow> satisfies c pkg [\<lparr>engine = e, minVersion = mn, maxVersion = Some W'\<rparr>] = Inr True"
    using upper by blast
  show ?thesis
    by (intro conjI) (rule c1 c2)+
qed

theorem bound_monotonicity_witness:
  "semver_order table_libs
   \<and> semverCoerce table_libs ''18'' = Some (18, 0, 0)
   \<and> semverCoerce table_libs ''14'' = Some (14, 0, 0)
   \<and> semverCoerce table_libs ''15'' = Some (15, 0, 0)
   \<and> lte table_libs (14, 0, 0) (18, 0, 0)
   \<and> gte table_libs (18, 0, 0) (15, 0, 0)
   \<and> cap_monotone table_libs ''15'' ''18''
   \<and> satisfies table_libs \<lparr>engines = Some [''node'' \<mapsto> ''>=18''], browserslist = None\<rparr>
       [\<lparr>engine = ''node'', minVersion = Some ''18'', maxVersion = None\<rparr>] = Inr True
   \<and> satisfies table_libs \<lparr>engines = Some [''node'' \<mapsto> ''>=18''], browserslist = None\<rparr>
       [\<lparr>engine = ''node'', minVersion = Some ''14'', maxVersion = None\<rparr>] = Inr True
   \<and> satisfies table_libs \<lparr>engines = Some [''node'' \<mapsto> ''14.2.0''], browserslist = None\<rparr>
       [\<lparr>engine = ''node'', minVersion = Some ''14'', maxVersion = Some ''15''\<rparr>] = Inr True
   \<and> satisfies table_libs \<lparr>engines = Some [''node'' \<mapsto> ''14.2.0''], browserslist = None\<rparr>
       [\<lparr>engine = ''node'', minVersion = Some ''14'', maxVersion = Some ''18''\<rparr>] = Inr True
   \<and> satisfies table_libs \<lparr>engines = None, browserslist = Some (BArray [''chrome 100''])\<rparr>
       [\<lparr>engine = ''chrome'', minVersion = None, maxVersion = Some ''100''\<rparr>] = Inr True
   \<and> satisfies table_libs \<lparr>engines = None, browserslist = Some (BArray [''chrome 100''])\<rparr>
       [\<lparr>engine = ''chrome'', minVersion = None, maxVersion = Some ''120''\<rparr>] = Inr True"
proof -
  let ?lo = "\<lparr>engines = Some [''node'' \<mapsto> ''>=18''], browserslist = None\<rparr>"
  let ?pt = "\<lparr>engines = Some [''node'' \<mapsto> ''14.2.0''], browserslist = None\<rparr>"
  let ?br = "\<lparr>engines = None, browserslist = Some (BArray [''chrome 100''])\<rparr>"
  have c: "semverCoerce table_libs ''18'' = Some (18, 0, 0)"
    "semverCoerce table_libs ''14'' = Some (14, 0, 0)"
    "semverCoerce table_libs ''15'' = Some (15, 0, 0)"
    "semverCoerce table_libs ''100'' = Some (100, 0, 0)"
    "semverCoerce table_libs ''120'' = Some (120, 0, 0)"
    by (simp_all add: table_defs)
  have o: "lte table_libs (14, 0, 0) (18, 0, 0)" "gte table_libs (18, 0, 0) (15, 0, 0)"
    "gte table_libs (120, 0, 0) (100, 0, 0)"
    by (simp_all add: table_defs)
  have m: "cap_monotone table_libs ''15'' ''18''"
    unfolding cap_monotone_def
  proof (intro allI impI)
    fix r assume a: "semverIntersects table_libs r (''>'' @ ''15'') = Inr False"
    show "semverIntersects table_libs r (''>'' @ ''18'') = Inr False"
    proof (cases r)
      case (Str s)
      with a show ?thesis
        by (cases "table_range s")
           (auto simp: table_libs_def table_intersects_def table_cap_def table_range_def
              ver_gte_def split: if_splits option.splits)
    next
      case (Inherited n)
      with a show ?thesis by (simp add: table_libs_def table_intersects_def)
    qed
  qed
  have s1: "satisfies table_libs ?lo
      [\<lparr>engine = ''node'', minVersion = Some ''18'', maxVersion = None\<rparr>] = Inr True"
    by (simp add: run_defs table_defs)
  have s2: "satisfies table_libs ?pt
      [\<lparr>engine = ''node'', minVersion = Some ''14'', maxVersion = Some ''15''\<rparr>] = Inr True"
    by (simp add: run_defs table_defs)
  have s3: "satisfies table_libs ?br
      [\<lparr>engine = ''chrome'', minVersion = None, maxVersion = Some ''100''\<rparr>] = Inr True"
    by (simp add: run_defs table_defs)
  have g: "truthy_value (get_property (engines_of ?br) ''chrome'') = None"
    by (simp add: run_defs)
  have r1: "satisfies table_libs ?lo
      [\<lparr>engine = ''node'', minVersion = Some ''14'', maxVersion = None\<rparr>] = Inr True"
    using bound_monotonicity [OF table_libs_order,
        where pkg = ?lo and e = "''node''" and V = "''18''" and V' = "''14''"
          and v = "(18, 0, 0)" and v' = "(14, 0, 0)" and mx = None]
      c o s1
    by simp
  have r2: "satisfies table_libs ?pt
      [\<lparr>engine = ''node'', minVersion = Some ''14'', maxVersion = Some ''18''\<rparr>] = Inr True"
    using bound_monotonicity [OF table_libs_order,
        where pkg = ?pt and e = "''node''" and W = "''15''" and W' = "''18''"
          and w = "(15, 0, 0)" and w' = "(18, 0, 0)" and mn = "Some ''14''"]
      c o m s2
    by simp
  have r3: "satisfies table_libs ?br
      [\<lparr>engine = ''chrome'', minVersion = None, maxVersion = Some ''120''\<rparr>] = Inr True"
    using bound_monotonicity [OF table_libs_order,
        where pkg = ?br and e = "''chrome''" and W = "''100''" and W' = "''120''"
          and w = "(100, 0, 0)" and w' = "(120, 0, 0)" and mn = None]
      c o g s3
    by simp
  from table_libs_order c o m s1 s2 s3 r1 r2 r3 show ?thesis by simp
qed

text \<open>
  C9 as stated fails for the upper bound against an engine range: \<^verbatim>\<open>14.1\<close> coerces
  above \<^verbatim>\<open>14\<close>, but \<^verbatim>\<open>>14\<close> is read as \<^verbatim>\<open>>=15.0.0\<close> and \<^verbatim>\<open>>14.1\<close> as
  \<^verbatim>\<open>>=14.2.0\<close>, so the range \<^verbatim>\<open>14.2.0\<close> passes the cap \<^verbatim>\<open>14\<close> and fails the larger
  cap \<^verbatim>\<open>14.1\<close>.
\<close>

theorem bound_monotonicity_counterexample:
  "semverCoerce table_libs ''14'' = Some (14, 0, 0)
   \<and> semverCoerce table_libs ''14.1'' = Some (14, 1, 0)
   \<and> gte table_libs (14, 1, 0) (14, 0, 0)
   \<and> satisfies table_libs \<lparr>engines = Some [''node'' \<mapsto> ''14.2.0''], browserslist = None\<rparr>
       [\<lparr>engine = ''node'', minVersion = None, maxVersion = Some ''14''\<rparr>] = Inr True
   \<and> satisfies table_libs \<lparr>engines = Some [''node'' \<mapsto> ''14.2.0''], browserslist = None\<rparr>
       [\<lparr>engine = ''node'', minVersion = None, maxVersion = Some ''14.1''\<rparr>] = Inr False"
  by (simp add: run_defs table_defs)

text \<open>
  C10. A constraint whose two bounds are both the empty string is skipped like one with
  no bound at all: the loop body answers "continue" whatever the libraries, the engines
  map and the resolved browser map are, so no lookup and no comparison can make it fail,
  and the verdict of \<open>satisfies\<close> is the one for the list without the constraint.
\<close>

theorem empty_string_bounds_skipped:
  "check_constraint c engs browser_map
     \<lparr>engine = e, minVersion = Some [], maxVersion = Some []\<rparr> = Inr True
   \<and> check_constraint c engs browser_map
       \<lparr>engine = e, minVersion = Some [], maxVersion = Some []\<rparr>
     = check_constraint c engs browser_map
         \<lparr>engine = e, minVersion = None, maxVersion = None\<rparr>
   \<and> satisfies c pkg (xs @ \<lparr>engine = e, minVersion = Some [], maxVersion = Some []\<rparr> # ys)
     = satisfies c pkg (xs @ ys)"
proof -
  have skip: "check_constraint c' engs' bm'
      \<lparr>engine = e, minVersion = Some [], maxVersion = Some []\<rparr> = Inr True"
    for c' :: "'a libs" and engs' bm'
    by (simp add: check_constraint_def truthy_def)
  have "check_constraint c engs browser_map
      \<lparr>engine = e, minVersion = None, maxVersion = None\<rparr> = Inr True"
    by (simp add: check_constraint_def truthy_def)
  moreover have "satisfies c pkg
      (xs @ \<lparr>engine = e, minVersion = Some [], maxVersion = Some []\<rparr> # ys)
      = satisfies c pkg (xs @ ys)"
    by (rule satisfies_skip) (rule skip)
  ultimately show ?thesis using skip by simp
qed

end
